theory Spec2Isabelle
  imports Complex_Main
begin

section \<open>JavaScript numbers\<close>

text \<open>
  The lock picker is written in JavaScript (\<^verbatim>\<open>src/main.js\<close>) with a TypeScript
  variant of the same classes beside it. All its numbers are integers stored in doubles.
  The embedding uses \<^typ>\<open>int\<close> for them and \<^typ>\<open>rat\<close> for the quotient that \<^verbatim>\<open>next()\<close>
  returns. This is exact arithmetic, and it is what the doubles compute in these cases:
  the dividend \<open>seed * 9301 + 49297\<close> is exact when its absolute value is below \<open>2^53\<close>,
  which holds from the second draw on (the stored seed is then smaller than 233280) and for
  the first draw when the absolute value of the seed is below about \<open>9.6 * 10^11\<close>; a
  seed taken from the clock is larger, and its first dividend is rounded by the source and
  not by the embedding. The floor of the product in \<^verbatim>\<open>nextInt\<close> is the floor of the exact
  product for the argument 10, the only one the program passes; for other arguments the
  rounded product of the source can fall below an integer that the exact product reaches.
  The statements below that depend on drawn values are about seeds 1 and -10, where the
  embedding and the source agree digit for digit.

  The operator \<^verbatim>\<open>%\<close> of JavaScript is the truncated remainder: its result has the sign of
  the dividend.
\<close>

definition js_rem :: "int \<Rightarrow> int \<Rightarrow> int" where
  "js_rem a b = sgn a * (\<bar>a\<bar> mod \<bar>b\<bar>)"

section \<open>SeededRandom\<close>

text \<open>
  \<^verbatim>\<open>next() { this.seed = (this.seed * 9301 + 49297) % 233280; return this.seed / 233280; }\<close>
  The generator's only field is the seed, so the state is passed explicitly: each draw
  returns its value together with the new seed.
\<close>

definition random_next :: "int \<Rightarrow> rat \<times> int" where
  "random_next seed =
     (let seed' = js_rem (seed * 9301 + 49297) 233280
      in (of_int seed' / 233280, seed'))"

text \<open>\<^verbatim>\<open>nextInt(max) { return Math.floor(this.next() * max); }\<close>\<close>

definition random_nextInt :: "int \<Rightarrow> int \<Rightarrow> int \<times> int" where
  "random_nextInt mx seed =
     (let (x, seed') = random_next seed
      in (\<lfloor>x * of_int mx\<rfloor>, seed'))"

section \<open>LockPickerGame\<close>

datatype sound = Tick | Correct | Unlock

text \<open>What a method does to its collaborators (audio, DOM), in the order of the calls.\<close>

datatype effect =
    Play sound
  | UpdateSlotHighlights
  | UpdateDisplay
  | AnimateDigitChange nat int int
  | AddCorrectClass nat
  | RemoveCorrectClass nat
  | Shake
  | Buzz
  | LogTargetCode "int list"
  | ResetUI
  | MarkSafeUnlocked

record game =
  slots :: "int list"
  currentSlot :: nat
  targetCode :: "int list"
  correctSlots :: "bool list"
  unlocked :: bool
  random :: int

definition charset :: string where
  "charset = ''0123456789''"

text \<open>The field initialisers of the constructor, with the seed read from the URL.\<close>

definition constructed :: "int \<Rightarrow> game" where
  "constructed seed =
     \<lparr>slots = [0, 0, 0], currentSlot = 0, targetCode = [],
      correctSlots = [False, False, False], unlocked = False, random = seed\<rparr>"

text \<open>Three draws from the session's generator, in slot order.\<close>

definition generateTargetCode :: "game \<Rightarrow> effect list \<times> game" where
  "generateTargetCode g =
     (let (a, r1) = random_nextInt (int (length charset)) (random g);
          (b, r2) = random_nextInt (int (length charset)) r1;
          (c, r3) = random_nextInt (int (length charset)) r2
      in ([LogTargetCode [a, b, c]], g\<lparr>targetCode := [a, b, c], random := r3\<rparr>))"

text \<open>
  \<^verbatim>\<open>init()\<close> generates the target code and only then installs the input handlers, so
  no operation runs before the target code exists.
\<close>

definition init :: "game \<Rightarrow> effect list \<times> game" where
  "init g = (let (e, g') = generateTargetCode g in (e @ [UpdateDisplay], g'))"

definition new_game :: "int \<Rightarrow> game" where
  "new_game seed = snd (init (constructed seed))"

definition selectSlot :: "int \<Rightarrow> game \<Rightarrow> effect list \<times> game" where
  "selectSlot slotIndex g =
     (if unlocked g \<or> slotIndex < 0 \<or> slotIndex \<ge> 3 then ([], g)
      else ([UpdateSlotHighlights, Play Tick], g\<lparr>currentSlot := nat slotIndex\<rparr>))"

text \<open>
  The arrays are read and written at \<open>currentSlot\<close>. The guard of \<open>selectSlot\<close> and the
  test before the increment in \<open>confirmSlot\<close> keep that index below 3 and no method changes
  the length of an array after \<open>init\<close> (lemma \<open>reachable_wf\<close> below), so list indexing and
  list update are the array operations of the source on every state the program reaches.
\<close>

definition changeDigit :: "int \<Rightarrow> game \<Rightarrow> effect list \<times> game" where
  "changeDigit direction g =
     (if unlocked g then ([], g)
      else
        let cur = currentSlot g;
            oldValue = slots g ! cur;
            n = int (length charset);
            newValue = js_rem (oldValue + direction + n) n;
            g' = g\<lparr>slots := (slots g)[cur := newValue],
                   correctSlots := (correctSlots g)[cur := False]\<rparr>
        in ([RemoveCorrectClass cur, AnimateDigitChange cur oldValue newValue,
             Play (if newValue = targetCode g ! cur then Correct else Tick)], g'))"

definition unlock :: "game \<Rightarrow> effect list \<times> game" where
  "unlock g = ([Play Unlock, Buzz], g\<lparr>unlocked := True\<rparr>)"

definition confirmSlot :: "game \<Rightarrow> effect list \<times> game" where
  "confirmSlot g =
     (if unlocked g then ([], g)
      else
        let cur = currentSlot g;
            isCorrect = (slots g ! cur = targetCode g ! cur);
            g1 = g\<lparr>correctSlots := (correctSlots g)[cur := isCorrect]\<rparr>;
            (e2, g2) =
              (if isCorrect then
                 (if cur < 2
                  then ([Play Correct, AddCorrectClass cur, UpdateSlotHighlights],
                        g1\<lparr>currentSlot := cur + 1\<rparr>)
                  else ([Play Correct, AddCorrectClass cur], g1))
               else ([RemoveCorrectClass cur], g1));
            (e3, g3) = (if list_all (\<lambda>correct. correct) (correctSlots g2) then unlock g2
                        else ([], g2))
        in (e2 @ e3, g3))"

text \<open>
  \<^verbatim>\<open>Array.prototype.every\<close> with the callback taking element and index. Reading
  \<open>targetCode\<close> past its end gives \<^verbatim>\<open>undefined\<close>, which is never \<^verbatim>\<open>===\<close> to a number.
\<close>

fun every_from :: "nat \<Rightarrow> ('a \<Rightarrow> nat \<Rightarrow> bool) \<Rightarrow> 'a list \<Rightarrow> bool" where
  "every_from i p [] = True"
| "every_from i p (x # xs) = (p x i \<and> every_from (Suc i) p xs)"

definition checkCombination :: "game \<Rightarrow> effect list \<times> game" where
  "checkCombination g =
     (if unlocked g then ([], g)
      else
        let isCorrect =
              every_from 0 (\<lambda>slot index. index < length (targetCode g)
                                          \<and> slot = targetCode g ! index) (slots g)
        in if isCorrect then unlock g else ([Shake], g))"

definition reset :: "game \<Rightarrow> effect list \<times> game" where
  "reset g =
     (let g1 = g\<lparr>slots := [0, 0, 0], currentSlot := 0,
                  correctSlots := [False, False, False], unlocked := False\<rparr>;
          (e, g2) = generateTargetCode g1
      in (e @ [ResetUI, UpdateDisplay], g2))"

subsection \<open>Input events and reachable states\<close>

text \<open>
  The handlers installed by \<open>setupInputHandlers\<close> and \<open>setupUI\<close>. The adapters only ever
  pass the directions 1 and -1 (the TypeScript type of the callback is \<^verbatim>\<open>1 | -1\<close>).
\<close>

datatype event = SelectSlot int | ChangeDigit int | Confirm | CheckCombination | Reset

fun handle :: "event \<Rightarrow> game \<Rightarrow> effect list \<times> game" where
  "handle (SelectSlot i) g = selectSlot i g"
| "handle (ChangeDigit d) g = changeDigit d g"
| "handle Confirm g = confirmSlot g"
| "handle CheckCombination g = checkCombination g"
| "handle Reset g = reset g"

fun valid_event :: "event \<Rightarrow> bool" where
  "valid_event (ChangeDigit d) = (d = 1 \<or> d = -1)"
| "valid_event _ = True"

fun run :: "event list \<Rightarrow> game \<Rightarrow> game" where
  "run [] g = g"
| "run (e # es) g = run es (snd (handle e g))"

text \<open>
  \<open>reachable seed g\<close>: the session constructed with \<open>seed\<close> can be in state \<open>g\<close> after
  some sequence of input events.
\<close>

inductive reachable :: "int \<Rightarrow> game \<Rightarrow> bool" where
  reachable_new: "reachable seed (new_game seed)"
| reachable_step: "reachable seed g \<Longrightarrow> valid_event e \<Longrightarrow> reachable seed (snd (handle e g))"

text \<open>The shape every reachable state has.\<close>

definition wf :: "game \<Rightarrow> bool" where
  "wf g \<longleftrightarrow>
     length (slots g) = 3 \<and> length (targetCode g) = 3 \<and> length (correctSlots g) = 3
     \<and> currentSlot g < 3 \<and> list_all (\<lambda>d. 0 \<le> d \<and> d < 10) (slots g)"

text \<open>How the flags, the digits and the target code are related in a reachable state.\<close>

definition consistent :: "game \<Rightarrow> bool" where
  "consistent g \<longleftrightarrow>
     (\<forall>i<3. correctSlots g ! i \<longrightarrow> slots g ! i = targetCode g ! i)
     \<and> (list_all (\<lambda>correct. correct) (correctSlots g) \<longrightarrow> unlocked g)
     \<and> (unlocked g \<longrightarrow> slots g = targetCode g)"

subsection \<open>The TypeScript variant\<close>

text \<open>
  The TypeScript file has the same class with three methods that differ: \<open>changeDigit\<close>
  keeps the slot's flag and always plays the tick, \<open>confirmSlot\<close> does not move to the next
  slot, and \<open>unlock\<close> marks the safe instead of starting the animation. It has no
  \<open>checkCombination\<close>.
\<close>

definition changeDigit_ts :: "int \<Rightarrow> game \<Rightarrow> effect list \<times> game" where
  "changeDigit_ts direction g =
     (if unlocked g then ([], g)
      else
        let cur = currentSlot g;
            oldValue = slots g ! cur;
            n = int (length charset);
            newValue = js_rem (oldValue + direction + n) n;
            g' = g\<lparr>slots := (slots g)[cur := newValue]\<rparr>
        in ([AnimateDigitChange cur oldValue newValue, Play Tick], g'))"

definition unlock_ts :: "game \<Rightarrow> effect list \<times> game" where
  "unlock_ts g = ([Play Unlock, MarkSafeUnlocked], g\<lparr>unlocked := True\<rparr>)"

definition confirmSlot_ts :: "game \<Rightarrow> effect list \<times> game" where
  "confirmSlot_ts g =
     (if unlocked g then ([], g)
      else
        let cur = currentSlot g;
            isCorrect = (slots g ! cur = targetCode g ! cur);
            g1 = g\<lparr>correctSlots := (correctSlots g)[cur := isCorrect]\<rparr>;
            e2 = (if isCorrect then [Play Correct, AddCorrectClass cur]
                  else [RemoveCorrectClass cur]);
            (e3, g3) = (if list_all (\<lambda>correct. correct) (correctSlots g1) then unlock_ts g1
                        else ([], g1))
        in (e2 @ e3, g3))"

subsection \<open>Two sessions with seed 1\<close>

text \<open>
  With seed 1 the target code is 2, 5, 3. The first session dials and confirms each slot
  in turn; the second dials all three slots and presses the enter button.
\<close>

definition confirm_path :: "event list" where
  "confirm_path =
     [ChangeDigit 1, ChangeDigit 1, Confirm]
     @ replicate 5 (ChangeDigit (-1)) @ [Confirm]
     @ replicate 3 (ChangeDigit 1) @ [Confirm]"

definition enter_path :: "event list" where
  "enter_path =
     [ChangeDigit 1, ChangeDigit 1, SelectSlot 1]
     @ replicate 5 (ChangeDigit (-1)) @ [SelectSlot 2]
     @ replicate 3 (ChangeDigit 1) @ [CheckCombination]"

section \<open>Arithmetic of the generator\<close>

lemma js_rem_nonneg: "0 \<le> a \<Longrightarrow> 0 < b \<Longrightarrow> js_rem a b = a mod b"
  by (cases "a = 0") (simp_all add: js_rem_def)

lemma js_rem_neg: "a < 0 \<Longrightarrow> 0 < b \<Longrightarrow> js_rem a b = - ((- a) mod b)"
  by (simp add: js_rem_def)

lemma random_next_snd: "snd (random_next seed) = js_rem (seed * 9301 + 49297) 233280"
  by (simp add: random_next_def Let_def)

text \<open>The floor of the scaled quotient is an integer division.\<close>

lemma random_nextInt_div:
  "random_nextInt m seed =
     ((js_rem (seed * 9301 + 49297) 233280 * m) div 233280, js_rem (seed * 9301 + 49297) 233280)"
proof -
  define a where "a = js_rem (seed * 9301 + 49297) 233280"
  have "(of_int a / 233280 * of_int m :: rat) = of_int (a * m) / of_int 233280"
    by simp
  then have "\<lfloor>of_int a / 233280 * of_int m :: rat\<rfloor> = (a * m) div 233280"
    by (simp only: floor_divide_of_int_eq)
  then show ?thesis
    by (simp add: random_nextInt_def random_next_def Let_def a_def)
qed

section \<open>The shape of reachable states\<close>

lemma wf_new_game: "wf (new_game seed)"
  by (simp add: wf_def new_game_def init_def constructed_def generateTargetCode_def Let_def
      split: prod.splits)

lemma wf_selectSlot: "wf g \<Longrightarrow> wf (snd (selectSlot i g))"
  by (auto simp: wf_def selectSlot_def)

lemma digit_step_range:
  "0 \<le> d \<Longrightarrow> d < 10 \<Longrightarrow> dir = 1 \<or> dir = -1 \<Longrightarrow>
   js_rem (d + dir + 10) 10 = (d + dir) mod 10"
proof -
  assume d: "0 \<le> d" "d < 10" and dir: "dir = 1 \<or> dir = -1"
  then have "0 \<le> d + dir + 10" by auto
  then have "js_rem (d + dir + 10) 10 = (d + dir + 10) mod 10"
    by (simp add: js_rem_nonneg)
  also have "\<dots> = (d + dir) mod 10" by simp
  finally show ?thesis .
qed

lemma slots_changeDigit:
  assumes "\<not> unlocked g" "wf g" "dir = 1 \<or> dir = -1"
  shows "slots (snd (changeDigit dir g)) =
           (slots g)[currentSlot g := (slots g ! currentSlot g + dir) mod 10]"
proof -
  from assms(2) have "0 \<le> slots g ! currentSlot g \<and> slots g ! currentSlot g < 10"
    by (simp add: wf_def list_all_length)
  with assms(1,3) show ?thesis
    by (simp add: changeDigit_def Let_def charset_def digit_step_range)
qed

lemma list_all_update:
  "list_all P xs \<Longrightarrow> P v \<Longrightarrow> list_all P (xs[i := v])"
  using set_update_subset_insert [of xs i v] by (auto simp: list_all_iff)

lemma wf_changeDigit:
  assumes "wf g" "dir = 1 \<or> dir = -1"
  shows "wf (snd (changeDigit dir g))"
proof (cases "unlocked g")
  case True
  with assms show ?thesis by (simp add: changeDigit_def)
next
  case False
  have rest: "length (targetCode (snd (changeDigit dir g))) = 3
      \<and> length (correctSlots (snd (changeDigit dir g))) = 3
      \<and> currentSlot (snd (changeDigit dir g)) < 3"
    using assms(1) False by (simp add: changeDigit_def Let_def wf_def)
  have "0 \<le> (slots g ! currentSlot g + dir) mod 10 \<and> (slots g ! currentSlot g + dir) mod 10 < 10"
    by simp
  with assms(1) have "list_all (\<lambda>d. 0 \<le> d \<and> d < 10)
      ((slots g)[currentSlot g := (slots g ! currentSlot g + dir) mod 10])"
    by (simp add: wf_def list_all_update)
  with rest assms False show ?thesis
    by (simp add: wf_def slots_changeDigit)
qed

lemma wf_confirmSlot: "wf g \<Longrightarrow> wf (snd (confirmSlot g))"
  by (auto simp: wf_def confirmSlot_def unlock_def Let_def split: prod.splits if_splits)

lemma wf_checkCombination: "wf g \<Longrightarrow> wf (snd (checkCombination g))"
  by (simp add: wf_def checkCombination_def unlock_def Let_def)

text \<open>A reset leaves the session as a new one seeded with the generator's current seed.\<close>

lemma reset_new_game: "snd (reset g) = new_game (random g)"
  by (simp add: reset_def new_game_def init_def constructed_def generateTargetCode_def Let_def
      split: prod.splits)

lemma wf_reset: "wf (snd (reset g))"
  by (simp add: reset_new_game wf_new_game)

lemma wf_handle: "wf g \<Longrightarrow> valid_event e \<Longrightarrow> wf (snd (handle e g))"
  by (cases e)
    (simp_all add: wf_selectSlot wf_changeDigit wf_confirmSlot wf_checkCombination wf_reset)

lemma reachable_wf: "reachable seed g \<Longrightarrow> wf g"
  by (induction rule: reachable.induct) (simp_all add: wf_new_game wf_handle)

lemma reachable_run_from:
  "reachable seed g \<Longrightarrow> list_all valid_event es \<Longrightarrow> reachable seed (run es g)"
  by (induction es arbitrary: g) (simp_all add: reachable_step)

lemma reachable_run: "list_all valid_event es \<Longrightarrow> reachable seed (run es (new_game seed))"
  by (rule reachable_run_from [OF reachable_new])

section \<open>The two sessions, evaluated\<close>

lemma valid_confirm_path: "list_all valid_event confirm_path"
  by (simp add: confirm_path_def list_all_iff)

lemma valid_enter_path: "list_all valid_event enter_path"
  by (simp add: enter_path_def list_all_iff)

lemma valid_butlast: "list_all valid_event es \<Longrightarrow> list_all valid_event (butlast es)"
  by (auto simp: list_all_iff dest: in_set_butlastD)

lemma new_game_1: "new_game 1 =
  \<lparr>slots = [0, 0, 0], currentSlot = 0, targetCode = [2, 5, 3],
    correctSlots = [False, False, False], unlocked = False, random = 79852\<rparr>"
  by (simp add: new_game_def init_def constructed_def generateTargetCode_def random_nextInt_div
      js_rem_def charset_def)

lemma run_confirm_prefix: "run (butlast confirm_path) (new_game 1) =
  \<lparr>slots = [2, 5, 3], currentSlot = 2, targetCode = [2, 5, 3],
    correctSlots = [True, True, False], unlocked = False, random = 79852\<rparr>"
  by (simp add: new_game_1 confirm_path_def changeDigit_def confirmSlot_def unlock_def
      js_rem_def charset_def Let_def numeral_eq_Suc)

lemma run_confirm_path: "run confirm_path (new_game 1) =
  \<lparr>slots = [2, 5, 3], currentSlot = 2, targetCode = [2, 5, 3],
    correctSlots = [True, True, True], unlocked = True, random = 79852\<rparr>"
  by (simp add: new_game_1 confirm_path_def changeDigit_def confirmSlot_def unlock_def
      js_rem_def charset_def Let_def numeral_eq_Suc)

lemma run_enter_path: "run enter_path (new_game 1) =
  \<lparr>slots = [2, 5, 3], currentSlot = 2, targetCode = [2, 5, 3],
    correctSlots = [False, False, False], unlocked = True, random = 79852\<rparr>"
  by (simp add: new_game_1 enter_path_def changeDigit_def selectSlot_def checkCombination_def
      unlock_def js_rem_def charset_def Let_def numeral_eq_Suc)

section \<open>confirmSlot\<close>

lemma all_flags_update:
  assumes "length xs = 3" "cur < 3"
  shows "list_all (\<lambda>c. c) (xs[cur := b]) \<longleftrightarrow> (b \<and> (\<forall>j<3. j \<noteq> cur \<longrightarrow> xs ! j))"
  using assms by (auto simp: list_all_length nth_list_update)

lemma confirmSlot_fields:
  assumes "\<not> unlocked g"
  shows "slots (snd (confirmSlot g)) = slots g"
    and "targetCode (snd (confirmSlot g)) = targetCode g"
    and "random (snd (confirmSlot g)) = random g"
    and "correctSlots (snd (confirmSlot g)) =
           (correctSlots g)[currentSlot g := (slots g ! currentSlot g = targetCode g ! currentSlot g)]"
    and "currentSlot (snd (confirmSlot g)) =
           (if slots g ! currentSlot g = targetCode g ! currentSlot g \<and> currentSlot g < 2
            then currentSlot g + 1 else currentSlot g)"
    and "unlocked (snd (confirmSlot g)) \<longleftrightarrow>
           list_all (\<lambda>c. c)
             ((correctSlots g)[currentSlot g := (slots g ! currentSlot g = targetCode g ! currentSlot g)])"
  using assms by (simp_all add: confirmSlot_def unlock_def Let_def split: prod.splits)

section \<open>The unlocked state\<close>

text \<open>
  C3. The unlocked state is absorbing: once \<open>unlocked\<close> is set, \<open>selectSlot\<close> with any
  integer, \<open>changeDigit\<close>, \<open>confirmSlot\<close> and \<open>checkCombination\<close> return at their first
  line, leaving every field as it is and calling no collaborator.
\<close>

theorem unlocked_absorbing:
  assumes "unlocked g"
  shows "selectSlot i g = ([], g) \<and> changeDigit direction g = ([], g)
         \<and> confirmSlot g = ([], g) \<and> checkCombination g = ([], g)"
  using assms by (simp add: selectSlot_def changeDigit_def confirmSlot_def checkCombination_def)

theorem unlocked_absorbing_witness:
  "unlocked (run confirm_path (new_game 1))
   \<and> selectSlot 0 (run confirm_path (new_game 1)) = ([], run confirm_path (new_game 1))
   \<and> changeDigit (-1) (run confirm_path (new_game 1)) = ([], run confirm_path (new_game 1))
   \<and> confirmSlot (run confirm_path (new_game 1)) = ([], run confirm_path (new_game 1))
   \<and> checkCombination (run confirm_path (new_game 1)) = ([], run confirm_path (new_game 1))"
proof -
  have u: "unlocked (run confirm_path (new_game 1))"
    by (simp add: run_confirm_path)
  from unlocked_absorbing [OF u, of 0 "-1"] u show ?thesis by simp
qed

text \<open>So does any sequence of input events without a reset.\<close>

lemma unlocked_run_frozen:
  "unlocked g \<Longrightarrow> Reset \<notin> set es \<Longrightarrow> run es g = g"
proof (induction es)
  case Nil
  then show ?case by simp
next
  case (Cons e es)
  then have "snd (handle e g) = g"
    by (cases e)
      (simp_all add: selectSlot_def changeDigit_def confirmSlot_def checkCombination_def)
  with Cons show ?case by simp
qed

section \<open>selectSlot\<close>

text \<open>
  C7 as stated ("in every reachable state \<open>selectSlot i\<close> with \<open>i\<close> in 0..2 sets the
  current slot to \<open>i\<close>") fails in a reachable unlocked state: after the three confirmations
  of the first session the current slot is 2 and \<open>selectSlot 0\<close> leaves it there.
\<close>

theorem selectSlot_counterexample:
  "reachable 1 (run confirm_path (new_game 1))
   \<and> currentSlot (run confirm_path (new_game 1)) = 2
   \<and> currentSlot (snd (selectSlot 0 (run confirm_path (new_game 1)))) \<noteq> 0"
proof -
  have "reachable 1 (run confirm_path (new_game 1))"
    by (rule reachable_run [OF valid_confirm_path])
  then show ?thesis
    by (simp add: run_confirm_path selectSlot_def)
qed

text \<open>
  C7, amended. In a locked state \<open>selectSlot i\<close> with \<open>i\<close> in 0..2 sets the current slot
  to \<open>i\<close> and changes nothing else; in an unlocked state, or with \<open>i\<close> outside 0..2, it
  changes nothing at all.
\<close>

theorem selectSlot_locked:
  "(\<not> unlocked g \<and> 0 \<le> i \<and> i < 3 \<longrightarrow>
      int (currentSlot (snd (selectSlot i g))) = i
      \<and> snd (selectSlot i g) = g\<lparr>currentSlot := nat i\<rparr>)
   \<and> (unlocked g \<or> i < 0 \<or> 3 \<le> i \<longrightarrow> selectSlot i g = ([], g))"
  by (simp add: selectSlot_def)

theorem selectSlot_locked_witness:
  "\<not> unlocked (new_game 1)
   \<and> currentSlot (new_game 1) = 0
   \<and> currentSlot (snd (selectSlot 2 (new_game 1))) = 2
   \<and> selectSlot 3 (new_game 1) = ([], new_game 1)
   \<and> selectSlot (-1) (new_game 1) = ([], new_game 1)
   \<and> unlocked (run confirm_path (new_game 1))
   \<and> selectSlot 0 (run confirm_path (new_game 1)) = ([], run confirm_path (new_game 1))"
proof -
  have l: "\<not> unlocked (new_game 1)" by (simp add: new_game_1)
  have u: "unlocked (run confirm_path (new_game 1))" by (simp add: run_confirm_path)
  have "int (currentSlot (snd (selectSlot 2 (new_game 1)))) = 2"
    using selectSlot_locked [of "new_game 1" 2] l by simp
  moreover have "selectSlot 3 (new_game 1) = ([], new_game 1)"
    using selectSlot_locked [of "new_game 1" 3] by simp
  moreover have "selectSlot (-1) (new_game 1) = ([], new_game 1)"
    using selectSlot_locked [of "new_game 1" "-1"] by simp
  moreover have "selectSlot 0 (run confirm_path (new_game 1)) = ([], run confirm_path (new_game 1))"
    using selectSlot_locked [of "run confirm_path (new_game 1)" 0] u by simp
  moreover have "currentSlot (new_game 1) = 0" by (simp add: new_game_1)
  ultimately show ?thesis using l u by simp
qed

section \<open>checkCombination\<close>

lemma every_from_nth:
  "every_from k p xs \<longleftrightarrow> (\<forall>i<length xs. p (xs ! i) (k + i))"
proof (induction xs arbitrary: k)
  case Nil
  then show ?case by simp
next
  case (Cons x xs)
  show ?case
    by (auto simp: Cons.IH less_Suc_eq_0_disj)
qed

lemma checkCombination_test:
  assumes "length (slots g) = length (targetCode g)"
  shows "every_from 0 (\<lambda>slot index. index < length (targetCode g) \<and> slot = targetCode g ! index)
           (slots g) \<longleftrightarrow> slots g = targetCode g"
  using assms by (auto simp: every_from_nth list_eq_iff_nth_eq)

text \<open>
  C10. In a locked state \<open>checkCombination\<close> unlocks when the digits equal the target code
  in all three slots; when they differ it only shakes the safe and the state is unchanged.
\<close>

theorem checkCombination_spec:
  assumes "\<not> unlocked g" and "wf g"
  shows "((\<forall>i<3. slots g ! i = targetCode g ! i) \<longrightarrow>
            checkCombination g = ([Play Unlock, Buzz], g\<lparr>unlocked := True\<rparr>))
         \<and> (\<not> (\<forall>i<3. slots g ! i = targetCode g ! i) \<longrightarrow>
            checkCombination g = ([Shake], g))"
proof -
  define t where "t = every_from 0 (\<lambda>slot index. index < length (targetCode g)
      \<and> slot = targetCode g ! index) (slots g)"
  from assms(2) have len: "length (slots g) = 3" "length (targetCode g) = 3"
    by (simp_all add: wf_def)
  have cc: "checkCombination g =
      (if t then ([Play Unlock, Buzz], g\<lparr>unlocked := True\<rparr>) else ([Shake], g))"
    using assms(1) by (simp add: checkCombination_def unlock_def Let_def t_def)
  have "t \<longleftrightarrow> slots g = targetCode g"
    unfolding t_def by (rule checkCombination_test) (simp only: len)
  also have "\<dots> \<longleftrightarrow> (\<forall>i<3. slots g ! i = targetCode g ! i)"
    using len by (simp add: list_eq_iff_nth_eq)
  finally show ?thesis
    by (simp add: cc)
qed

theorem checkCombination_spec_witness:
  "\<not> unlocked (run (butlast enter_path) (new_game 1))
   \<and> wf (run (butlast enter_path) (new_game 1))
   \<and> slots (run (butlast enter_path) (new_game 1)) = targetCode (run (butlast enter_path) (new_game 1))
   \<and> unlocked (snd (checkCombination (run (butlast enter_path) (new_game 1))))
   \<and> \<not> unlocked (new_game 1) \<and> wf (new_game 1)
   \<and> slots (new_game 1) ! 0 \<noteq> targetCode (new_game 1) ! 0
   \<and> checkCombination (new_game 1) = ([Shake], new_game 1)"
proof -
  let ?a = "run (butlast enter_path) (new_game 1)"
  have a: "?a = \<lparr>slots = [2, 5, 3], currentSlot = 2, targetCode = [2, 5, 3],
    correctSlots = [False, False, False], unlocked = False, random = 79852\<rparr>"
    by (simp add: new_game_1 enter_path_def changeDigit_def selectSlot_def
        js_rem_def charset_def Let_def numeral_eq_Suc)
  have la: "\<not> unlocked ?a" and wa: "wf ?a"
    by (simp_all add: a wf_def)
  have lb: "\<not> unlocked (new_game 1)" and wb: "wf (new_game 1)"
    by (simp_all add: new_game_1 wf_def)
  have "\<forall>i<3. slots ?a ! i = targetCode ?a ! i"
    by (simp add: a)
  with checkCombination_spec [OF la wa]
  have a': "unlocked (snd (checkCombination ?a))" by simp
  have "\<not> (\<forall>i<3. slots (new_game 1) ! i = targetCode (new_game 1) ! i)"
    by (auto simp: new_game_1 intro: exI [of _ 0])
  with checkCombination_spec [OF lb wb]
  have b': "checkCombination (new_game 1) = ([Shake], new_game 1)" by simp
  from la wa lb wb a' b' show ?thesis by (simp add: a) (simp add: new_game_1)
qed

section \<open>changeDigit\<close>

lemma changeDigit_fields:
  assumes "\<not> unlocked g"
  shows "currentSlot (snd (changeDigit dir g)) = currentSlot g"
    and "targetCode (snd (changeDigit dir g)) = targetCode g"
    and "random (snd (changeDigit dir g)) = random g"
    and "\<not> unlocked (snd (changeDigit dir g))"
    and "correctSlots (snd (changeDigit dir g)) = (correctSlots g)[currentSlot g := False]"
  using assms by (simp_all add: changeDigit_def Let_def)

lemma digit_in_range:
  "wf g \<Longrightarrow> 0 \<le> slots g ! currentSlot g \<and> slots g ! currentSlot g < 10"
  by (simp add: wf_def list_all_length)

section \<open>The TypeScript variant: the same digits, no advance\<close>

text \<open>
  The TypeScript \<open>changeDigit\<close> computes the same digits and leaves the flags alone; the
  TypeScript \<open>confirmSlot\<close> unlocks under the same condition and never moves the current
  slot.
\<close>

lemma slots_changeDigit_ts: "slots (snd (changeDigit_ts dir g)) = slots (snd (changeDigit dir g))"
  by (simp add: changeDigit_ts_def changeDigit_def Let_def)

lemma changeDigit_ts_keeps_flags:
  "correctSlots (snd (changeDigit_ts dir g)) = correctSlots g"
  by (simp add: changeDigit_ts_def Let_def)

lemma confirmSlot_ts_fields:
  assumes "\<not> unlocked g"
  shows "currentSlot (snd (confirmSlot_ts g)) = currentSlot g"
    and "correctSlots (snd (confirmSlot_ts g)) =
           (correctSlots g)[currentSlot g := (slots g ! currentSlot g = targetCode g ! currentSlot g)]"
    and "unlocked (snd (confirmSlot_ts g)) \<longleftrightarrow>
           list_all (\<lambda>c. c)
             ((correctSlots g)[currentSlot g := (slots g ! currentSlot g = targetCode g ! currentSlot g)])"
  using assms by (simp_all add: confirmSlot_ts_def unlock_ts_def Let_def split: prod.splits)

section \<open>Flags, digits and the unlocked state\<close>

lemma new_game_fields:
  "slots (new_game seed) = [0, 0, 0]"
  "currentSlot (new_game seed) = 0"
  "correctSlots (new_game seed) = [False, False, False]"
  "\<not> unlocked (new_game seed)"
  by (simp_all add: new_game_def init_def constructed_def generateTargetCode_def Let_def
      split: prod.splits)

lemma consistent_new_game: "consistent (new_game seed)"
  by (auto simp: consistent_def new_game_fields less_Suc_eq numeral_3_eq_3)

lemma consistent_selectSlot: "consistent g \<Longrightarrow> consistent (snd (selectSlot i g))"
  by (auto simp: consistent_def selectSlot_def)

lemma consistent_changeDigit:
  assumes "wf g" and "consistent g"
  shows "consistent (snd (changeDigit dir g))"
proof (cases "unlocked g")
  case True
  with assms(2) show ?thesis by (simp add: changeDigit_def)
next
  case False
  let ?g' = "snd (changeDigit dir g)"
  from assms(1) have len: "currentSlot g < length (correctSlots g)"
    by (simp add: wf_def)
  have s: "slots ?g' ! i = slots g ! i" if "i \<noteq> currentSlot g" for i
    using False that by (simp add: changeDigit_def Let_def)
  have f: "correctSlots ?g' = (correctSlots g)[currentSlot g := False]"
    and t: "targetCode ?g' = targetCode g" and u: "\<not> unlocked ?g'"
    using False by (simp_all add: changeDigit_fields)
  from len have off: "\<not> correctSlots ?g' ! currentSlot g"
    by (simp add: f)
  have "\<forall>i<3. correctSlots ?g' ! i \<longrightarrow> slots ?g' ! i = targetCode ?g' ! i"
  proof (intro allI impI)
    fix i :: nat
    assume "i < 3" and on: "correctSlots ?g' ! i"
    with off have ne: "i \<noteq> currentSlot g" by auto
    with on have "correctSlots g ! i" by (simp add: f)
    with assms(2) \<open>i < 3\<close> have "slots g ! i = targetCode g ! i"
      by (simp add: consistent_def)
    with s [OF ne] show "slots ?g' ! i = targetCode ?g' ! i"
      by (simp add: t)
  qed
  moreover from off len have "\<not> list_all (\<lambda>c. c) (correctSlots ?g')"
    by (auto simp: list_all_length f)
  ultimately show ?thesis
    using u by (simp add: consistent_def)
qed

lemma consistent_confirmSlot:
  assumes "wf g" and "consistent g"
  shows "consistent (snd (confirmSlot g))"
proof (cases "unlocked g")
  case True
  with assms(2) show ?thesis by (simp add: confirmSlot_def)
next
  case False
  let ?g' = "snd (confirmSlot g)"
  let ?c = "slots g ! currentSlot g = targetCode g ! currentSlot g"
  from assms(1) have len: "length (slots g) = 3" "length (targetCode g) = 3"
    "length (correctSlots g) = 3" "currentSlot g < 3"
    by (simp_all add: wf_def)
  note fs = confirmSlot_fields [OF False]
  have flags: "\<forall>i<3. correctSlots ?g' ! i \<longrightarrow> slots ?g' ! i = targetCode ?g' ! i"
  proof (intro allI impI)
    fix i :: nat
    assume i: "i < 3" and on: "correctSlots ?g' ! i"
    show "slots ?g' ! i = targetCode ?g' ! i"
    proof (cases "i = currentSlot g")
      case True
      with on len show ?thesis by (simp add: fs)
    next
      case False
      with on have "correctSlots g ! i" by (simp add: fs)
      with assms(2) i show ?thesis by (simp add: consistent_def fs)
    qed
  qed
  have "slots ?g' = targetCode ?g'" if "unlocked ?g'"
  proof -
    from that have "list_all (\<lambda>c. c) (correctSlots ?g')" by (simp add: fs)
    with len have "\<forall>i<3. correctSlots ?g' ! i"
      by (simp add: list_all_length fs)
    with flags have "\<forall>i<3. slots ?g' ! i = targetCode ?g' ! i" by blast
    with len show ?thesis by (simp add: list_eq_iff_nth_eq fs)
  qed
  with flags show ?thesis
    by (simp add: consistent_def fs(4,6))
qed

lemma checkCombination_locked:
  assumes "\<not> unlocked g" and "length (slots g) = length (targetCode g)"
  shows "checkCombination g =
           (if slots g = targetCode g then ([Play Unlock, Buzz], g\<lparr>unlocked := True\<rparr>)
            else ([Shake], g))"
  using assms(1) checkCombination_test [OF assms(2)]
  by (simp add: checkCombination_def unlock_def Let_def)

lemma consistent_checkCombination:
  assumes "wf g" and "consistent g"
  shows "consistent (snd (checkCombination g))"
proof (cases "unlocked g")
  case True
  with assms(2) show ?thesis by (simp add: checkCombination_def)
next
  case False
  from assms(1) have "length (slots g) = length (targetCode g)" by (simp add: wf_def)
  from checkCombination_locked [OF False this] assms(2) show ?thesis
    by (auto simp: consistent_def)
qed

lemma consistent_handle:
  "wf g \<Longrightarrow> consistent g \<Longrightarrow> consistent (snd (handle e g))"
  by (cases e)
    (simp_all add: consistent_selectSlot consistent_changeDigit consistent_confirmSlot
      consistent_checkCombination reset_new_game consistent_new_game)

lemma reachable_consistent: "reachable seed g \<Longrightarrow> consistent g"
  by (induction rule: reachable.induct)
    (simp_all add: consistent_new_game consistent_handle reachable_wf)

text \<open>
  C2 as stated ("\<open>unlocked\<close> holds exactly when all three flags are set, also on the
  full-combination path") fails: in the second session the digits are dialled without
  confirming, \<open>checkCombination\<close> unlocks, and no flag is set.
\<close>

theorem unlocked_without_flags_counterexample:
  "reachable 1 (run enter_path (new_game 1))
   \<and> unlocked (run enter_path (new_game 1))
   \<and> \<not> list_all (\<lambda>correct. correct) (correctSlots (run enter_path (new_game 1)))
   \<and> correctSlots (run enter_path (new_game 1)) = [False, False, False]"
proof -
  have "reachable 1 (run enter_path (new_game 1))"
    by (rule reachable_run [OF valid_enter_path])
  then show ?thesis by (simp add: run_enter_path)
qed

text \<open>
  C2, amended. In every reachable state: when all three flags are set the lock is
  unlocked; when the lock is unlocked the digits equal the target code in all three slots;
  and a flag that is set means that its slot's digit equals the target digit. (The
  converse of the first part is what \<open>checkCombination\<close> breaks: it unlocks on equal digits
  without touching the flags.)
\<close>

theorem unlocked_invariant:
  assumes "reachable seed g"
  shows "(list_all (\<lambda>correct. correct) (correctSlots g) \<longrightarrow> unlocked g)
         \<and> (unlocked g \<longrightarrow> slots g = targetCode g)
         \<and> (\<forall>i<3. correctSlots g ! i \<longrightarrow> slots g ! i = targetCode g ! i)"
  using reachable_consistent [OF assms] by (simp add: consistent_def)

theorem unlocked_invariant_witness:
  "reachable 1 (run confirm_path (new_game 1))
   \<and> list_all (\<lambda>correct. correct) (correctSlots (run confirm_path (new_game 1)))
   \<and> unlocked (run confirm_path (new_game 1))
   \<and> slots (run confirm_path (new_game 1)) = targetCode (run confirm_path (new_game 1))"
proof -
  have r: "reachable 1 (run confirm_path (new_game 1))"
    by (rule reachable_run [OF valid_confirm_path])
  have f: "list_all (\<lambda>correct. correct) (correctSlots (run confirm_path (new_game 1)))"
    by (simp add: run_confirm_path)
  from unlocked_invariant [OF r] f r show ?thesis by simp
qed

section \<open>The generator on non-negative and on negative dividends\<close>

lemma random_next_nonneg:
  assumes "0 \<le> seed * 9301 + 49297"
  shows "snd (random_next seed) = (seed * 9301 + 49297) mod 233280"
    and "fst (random_next seed) = of_int (snd (random_next seed)) / 233280"
    and "0 \<le> fst (random_next seed)" and "fst (random_next seed) < 1"
proof -
  let ?s = "(seed * 9301 + 49297) mod 233280"
  have r: "random_next seed = (of_int ?s / 233280, ?s)"
    using assms by (simp add: random_next_def Let_def js_rem_nonneg)
  have "0 \<le> ?s" "?s < 233280" by simp_all
  then have "(0::rat) \<le> of_int ?s" "(of_int ?s :: rat) < 233280"
    by simp_all
  then have "(0::rat) \<le> of_int ?s / 233280" "(of_int ?s / 233280 :: rat) < 1"
    by simp_all
  with r show "snd (random_next seed) = ?s"
    and "fst (random_next seed) = of_int (snd (random_next seed)) / 233280"
    and "0 \<le> fst (random_next seed)" and "fst (random_next seed) < 1"
    by simp_all
qed

lemma random_nextInt_floor:
  "random_nextInt m seed = (\<lfloor>fst (random_next seed) * of_int m\<rfloor>, snd (random_next seed))"
  by (simp add: random_nextInt_def split: prod.splits)

lemma random_nextInt_nonneg:
  assumes "0 \<le> seed * 9301 + 49297" and "1 \<le> m"
  shows "0 \<le> fst (random_nextInt m seed)" and "fst (random_nextInt m seed) < m"
    and "0 \<le> snd (random_nextInt m seed)" and "snd (random_nextInt m seed) < 233280"
proof -
  let ?s = "(seed * 9301 + 49297) mod 233280"
  have r: "random_nextInt m seed = ((?s * m) div 233280, ?s)"
    using assms(1) by (simp add: random_nextInt_div js_rem_nonneg)
  have s: "0 \<le> ?s" "?s < 233280" by simp_all
  with assms(2) have "0 \<le> ?s * m" by simp
  then have lo: "0 \<le> (?s * m) div 233280" by simp
  from s assms(2) have "?s * m < 233280 * m"
    by (simp add: mult_strict_right_mono)
  then have hi: "(?s * m) div 233280 < m"
    by (simp add: div_less_iff_less_mult algebra_simps)
  from r lo hi s show "0 \<le> fst (random_nextInt m seed)" and "fst (random_nextInt m seed) < m"
    and "0 \<le> snd (random_nextInt m seed)" and "snd (random_nextInt m seed) < 233280"
    by simp_all
qed

text \<open>
  C5. On a seed whose dividend \<open>seed * 9301 + 49297\<close> is negative (every seed below -5)
  the truncated remainder is not positive: from seed -10, \<open>next()\<close> sets the seed to
  -43713, which is not the dividend modulo 233280, and returns -43713/233280;
  \<open>nextInt(10)\<close> returns -2. Neither value is in the range that holds for the other
  seeds (\<open>random_next_nonneg\<close>, \<open>random_nextInt_nonneg\<close>).
\<close>

theorem random_negative_seed:
  "random_next (-10) = (- (43713 / 233280), - 43713)
   \<and> fst (random_next (-10)) < 0
   \<and> random_nextInt 10 (-10) = (-2, - 43713)
   \<and> snd (random_next (-10)) \<noteq> (-10 * 9301 + 49297) mod 233280"
  by (simp add: random_next_def random_nextInt_div js_rem_def)

section \<open>The ranges of the digits and of the target code\<close>

lemma handle_keeps_generator:
  assumes "e \<noteq> Reset"
  shows "targetCode (snd (handle e g)) = targetCode g \<and> random (snd (handle e g)) = random g"
proof (cases e)
  case (SelectSlot i)
  then show ?thesis by (simp add: selectSlot_def)
next
  case (ChangeDigit d)
  then show ?thesis by (simp add: changeDigit_def Let_def)
next
  case Confirm
  then show ?thesis
    by (cases "unlocked g") (simp_all add: confirmSlot_fields, simp add: confirmSlot_def)
next
  case CheckCombination
  then show ?thesis by (simp add: checkCombination_def unlock_def Let_def)
next
  case Reset
  with assms show ?thesis by simp
qed

lemma new_game_generator:
  assumes "0 \<le> seed * 9301 + 49297"
  shows "list_all (\<lambda>d. 0 \<le> d \<and> d < 10) (targetCode (new_game seed))
         \<and> 0 \<le> random (new_game seed)"
proof -
  obtain a r1 where 1: "random_nextInt 10 seed = (a, r1)" by (cases "random_nextInt 10 seed")
  obtain b r2 where 2: "random_nextInt 10 r1 = (b, r2)" by (cases "random_nextInt 10 r1")
  obtain c r3 where 3: "random_nextInt 10 r2 = (c, r3)" by (cases "random_nextInt 10 r2")
  from random_nextInt_nonneg [OF assms, of 10] 1
  have a: "0 \<le> a" "a < 10" "0 \<le> r1" by simp_all
  then have "0 \<le> r1 * 9301 + 49297" by simp
  from random_nextInt_nonneg [OF this, of 10] 2
  have b: "0 \<le> b" "b < 10" "0 \<le> r2" by simp_all
  then have "0 \<le> r2 * 9301 + 49297" by simp
  from random_nextInt_nonneg [OF this, of 10] 3
  have c: "0 \<le> c" "c < 10" "0 \<le> r3" by simp_all
  have "targetCode (new_game seed) = [a, b, c]" "random (new_game seed) = r3"
    by (simp_all add: new_game_def init_def constructed_def generateTargetCode_def charset_def
        1 2 3)
  with a b c show ?thesis by simp
qed

lemma reachable_generator:
  assumes "reachable seed g" and "0 \<le> seed * 9301 + 49297"
  shows "list_all (\<lambda>d. 0 \<le> d \<and> d < 10) (targetCode g) \<and> 0 \<le> random g"
  using assms
proof (induction rule: reachable.induct)
  case (reachable_new seed)
  then show ?case by (rule new_game_generator)
next
  case (reachable_step seed g e)
  then have ih: "list_all (\<lambda>d. 0 \<le> d \<and> d < 10) (targetCode g) \<and> 0 \<le> random g"
    by simp
  show ?case
  proof (cases "e = Reset")
    case True
    from ih have "0 \<le> random g * 9301 + 49297" by simp
    from new_game_generator [OF this] True show ?thesis
      by (simp add: reset_new_game)
  next
    case False
    from handle_keeps_generator [OF this] ih show ?thesis by simp
  qed
qed

text \<open>
  In a session whose seed is at least -5 every digit and every element of the target code
  is in 0..9, in every reachable state (for the exact arithmetic of the embedding). The
  digits are in that range for every seed.
\<close>

lemma reachable_ranges:
  assumes "reachable seed g" and "-5 \<le> seed"
  shows "list_all (\<lambda>d. 0 \<le> d \<and> d < 10) (slots g)
         \<and> list_all (\<lambda>d. 0 \<le> d \<and> d < 10) (targetCode g)"
proof -
  from assms(2) have "0 \<le> seed * 9301 + 49297" by simp
  from reachable_generator [OF assms(1) this] reachable_wf [OF assms(1)]
  show ?thesis by (simp add: wf_def)
qed

text \<open>
  C4. With a negative seed the target code leaves the range: the session constructed
  with seed -10 has the target code -2, -7, -5, which no digits can ever equal.
\<close>

theorem negative_seed_targetCode:
  "targetCode (new_game (-10)) = [-2, -7, -5]
   \<and> \<not> list_all (\<lambda>d. 0 \<le> d \<and> d < 10) (targetCode (new_game (-10)))"
  by (simp add: new_game_def init_def constructed_def generateTargetCode_def random_nextInt_div
      js_rem_def charset_def)

section \<open>reset\<close>

text \<open>
  C9 as stated ("after a reset the target code is the original one") fails: \<open>reset\<close> takes
  no seed and draws from the generator where the construction left it. With seed 1 the
  target code is 2, 5, 3 at construction and 9, 7, 1 after the reset.
\<close>

theorem reset_counterexample:
  "targetCode (new_game 1) = [2, 5, 3]
   \<and> targetCode (snd (reset (new_game 1))) = [9, 7, 1]"
  by (simp add: reset_new_game new_game_1)
    (simp add: new_game_def init_def constructed_def generateTargetCode_def random_nextInt_div
      js_rem_def charset_def)

text \<open>
  C9, amended. After constructing a session with seed \<open>X\<close>, a reset sets the digits to
  0, 0, 0, the current slot to 0, the flags to false and \<open>unlocked\<close> to false, and draws the
  target code as the next three values of the same generator: the state is that of a new
  session whose seed is the generator's seed after the first three draws.
\<close>

theorem reset_continues_stream:
  "snd (reset (new_game X))
     = new_game (snd (random_next (snd (random_next (snd (random_next X))))))
   \<and> slots (snd (reset (new_game X))) = [0, 0, 0]
   \<and> currentSlot (snd (reset (new_game X))) = 0
   \<and> correctSlots (snd (reset (new_game X))) = [False, False, False]
   \<and> \<not> unlocked (snd (reset (new_game X)))"
proof -
  have "random (new_game X) = snd (random_next (snd (random_next (snd (random_next X)))))"
    by (simp add: new_game_def init_def constructed_def generateTargetCode_def
        random_nextInt_floor Let_def)
  then show ?thesis
    by (simp add: reset_new_game new_game_fields)
qed

section \<open>More evaluated states of the first session\<close>

lemma run_take2: "run (take 2 confirm_path) (new_game 1) =
  \<lparr>slots = [2, 0, 0], currentSlot = 0, targetCode = [2, 5, 3],
    correctSlots = [False, False, False], unlocked = False, random = 79852\<rparr>"
  by (simp add: new_game_1 confirm_path_def changeDigit_def js_rem_def charset_def Let_def)

lemma run_take4: "run (take 4 confirm_path) (new_game 1) =
  \<lparr>slots = [2, 9, 0], currentSlot = 1, targetCode = [2, 5, 3],
    correctSlots = [True, False, False], unlocked = False, random = 79852\<rparr>"
  by (simp add: new_game_1 confirm_path_def changeDigit_def confirmSlot_def unlock_def
      js_rem_def charset_def Let_def numeral_eq_Suc)

lemma two_up_ts: "snd (changeDigit_ts 1 (snd (changeDigit_ts 1 (new_game 1)))) =
  \<lparr>slots = [2, 0, 0], currentSlot = 0, targetCode = [2, 5, 3],
    correctSlots = [False, False, False], unlocked = False, random = 79852\<rparr>"
  by (simp add: new_game_1 changeDigit_ts_def js_rem_def charset_def Let_def)

section \<open>confirmSlot in both variants\<close>

text \<open>
  C1. In a locked state with three slots (every reachable state is one, \<open>reachable_wf\<close>),
  \<open>confirmSlot\<close> sets \<open>unlocked\<close> exactly when the digit of the current slot equals the
  target digit of that slot and the flag of every other slot is already set. This holds
  for the method of \<^verbatim>\<open>main.js\<close> and for the one of the TypeScript file.
\<close>

theorem confirmSlot_unlocks_iff:
  assumes "wf g" and "\<not> unlocked g"
  shows "(unlocked (snd (confirmSlot g)) \<longleftrightarrow>
            (slots g ! currentSlot g = targetCode g ! currentSlot g
             \<and> (\<forall>j<3. j \<noteq> currentSlot g \<longrightarrow> correctSlots g ! j)))
         \<and> (unlocked (snd (confirmSlot_ts g)) \<longleftrightarrow>
            (slots g ! currentSlot g = targetCode g ! currentSlot g
             \<and> (\<forall>j<3. j \<noteq> currentSlot g \<longrightarrow> correctSlots g ! j)))"
proof -
  from assms(1) have "length (correctSlots g) = 3" "currentSlot g < 3"
    by (simp_all add: wf_def)
  then show ?thesis
    using assms(2)
    by (simp add: confirmSlot_fields(6) confirmSlot_ts_fields(3) all_flags_update)
qed

theorem confirmSlot_unlocks_iff_witness:
  "wf (run (butlast confirm_path) (new_game 1))
   \<and> \<not> unlocked (run (butlast confirm_path) (new_game 1))
   \<and> unlocked (snd (confirmSlot (run (butlast confirm_path) (new_game 1))))
   \<and> unlocked (snd (confirmSlot_ts (run (butlast confirm_path) (new_game 1))))
   \<and> wf (run (take 2 confirm_path) (new_game 1))
   \<and> \<not> unlocked (run (take 2 confirm_path) (new_game 1))
   \<and> \<not> unlocked (snd (confirmSlot (run (take 2 confirm_path) (new_game 1))))
   \<and> \<not> unlocked (snd (confirmSlot_ts (run (take 2 confirm_path) (new_game 1))))
   \<and> wf (run (take 4 confirm_path) (new_game 1))
   \<and> \<not> unlocked (run (take 4 confirm_path) (new_game 1))
   \<and> \<not> unlocked (snd (confirmSlot (run (take 4 confirm_path) (new_game 1))))
   \<and> \<not> unlocked (snd (confirmSlot_ts (run (take 4 confirm_path) (new_game 1))))"
proof -
  let ?a = "run (butlast confirm_path) (new_game 1)"
  let ?b = "run (take 2 confirm_path) (new_game 1)"
  let ?c = "run (take 4 confirm_path) (new_game 1)"
  have wa: "wf ?a" and la: "\<not> unlocked ?a"
    by (simp_all add: run_confirm_prefix wf_def)
  have wb: "wf ?b" and lb: "\<not> unlocked ?b"
    by (simp_all add: run_take2 wf_def)
  have wc: "wf ?c" and lc: "\<not> unlocked ?c"
    by (simp_all add: run_take4 wf_def)
  have "\<forall>j<3. j \<noteq> currentSlot ?a \<longrightarrow> correctSlots ?a ! j"
    by (auto simp: run_confirm_prefix less_Suc_eq numeral_3_eq_3)
  then have a: "unlocked (snd (confirmSlot ?a)) \<and> unlocked (snd (confirmSlot_ts ?a))"
    using confirmSlot_unlocks_iff [OF wa la] by (simp add: run_confirm_prefix)
  have "\<not> (\<forall>j<3. j \<noteq> currentSlot ?b \<longrightarrow> correctSlots ?b ! j)"
    by (auto simp: run_take2 intro: exI [of _ 1])
  then have b: "\<not> unlocked (snd (confirmSlot ?b)) \<and> \<not> unlocked (snd (confirmSlot_ts ?b))"
    using confirmSlot_unlocks_iff [OF wb lb] by simp
  have "slots ?c ! currentSlot ?c \<noteq> targetCode ?c ! currentSlot ?c"
    by (simp add: run_take4)
  then have c: "\<not> unlocked (snd (confirmSlot ?c)) \<and> \<not> unlocked (snd (confirmSlot_ts ?c))"
    using confirmSlot_unlocks_iff [OF wc lc] by simp
  from wa la wb lb wc lc a b c show ?thesis by simp
qed

text \<open>
  C8 as stated ("when the comparison is true \<open>confirmSlot\<close> advances the current slot")
  fails for the \<open>confirmSlot\<close> of the TypeScript file: after two steps up from the start of
  the session with seed 1 the first digit is the target digit 2, and the TypeScript
  \<open>confirmSlot\<close> leaves the current slot at 0, where the claim says 1.
\<close>

theorem confirmSlot_ts_counterexample:
  "\<not> unlocked (snd (changeDigit_ts 1 (snd (changeDigit_ts 1 (new_game 1)))))
   \<and> currentSlot (snd (changeDigit_ts 1 (snd (changeDigit_ts 1 (new_game 1))))) = 0
   \<and> slots (snd (changeDigit_ts 1 (snd (changeDigit_ts 1 (new_game 1))))) ! 0
       = targetCode (snd (changeDigit_ts 1 (snd (changeDigit_ts 1 (new_game 1))))) ! 0
   \<and> currentSlot (snd (confirmSlot_ts (snd (changeDigit_ts 1 (snd (changeDigit_ts 1 (new_game 1)))))))
       = 0
   \<and> currentSlot (snd (confirmSlot_ts (snd (changeDigit_ts 1 (snd (changeDigit_ts 1 (new_game 1)))))))
       \<noteq> min (currentSlot (snd (changeDigit_ts 1 (snd (changeDigit_ts 1 (new_game 1))))) + 1) 2"
  by (simp add: two_up_ts confirmSlot_ts_def unlock_ts_def Let_def)

text \<open>
  C8, amended. In a locked state both variants of \<open>confirmSlot\<close> set the flag of the
  current slot to the result of comparing its digit with the target digit, and leave the
  other flags alone. The \<open>confirmSlot\<close> of \<^verbatim>\<open>main.js\<close> then makes the current slot
  \<open>min (currentSlot + 1) 2\<close> when the comparison is true and leaves it when it is false;
  the \<open>confirmSlot\<close> of the TypeScript file never changes the current slot.
\<close>

theorem confirmSlot_flag_and_advance:
  assumes "\<not> unlocked g" and "wf g"
  shows "correctSlots (snd (confirmSlot g)) ! currentSlot g
           = (slots g ! currentSlot g = targetCode g ! currentSlot g)
         \<and> (\<forall>j. j \<noteq> currentSlot g \<longrightarrow> correctSlots (snd (confirmSlot g)) ! j = correctSlots g ! j)
         \<and> currentSlot (snd (confirmSlot g))
           = (if slots g ! currentSlot g = targetCode g ! currentSlot g
              then min (currentSlot g + 1) 2 else currentSlot g)
         \<and> correctSlots (snd (confirmSlot_ts g)) ! currentSlot g
           = (slots g ! currentSlot g = targetCode g ! currentSlot g)
         \<and> (\<forall>j. j \<noteq> currentSlot g \<longrightarrow> correctSlots (snd (confirmSlot_ts g)) ! j = correctSlots g ! j)
         \<and> currentSlot (snd (confirmSlot_ts g)) = currentSlot g"
proof -
  from assms(2) have "currentSlot g < length (correctSlots g)" "currentSlot g < 3"
    by (simp_all add: wf_def)
  with assms(1) show ?thesis
    by (auto simp: confirmSlot_fields(4,5) confirmSlot_ts_fields(1,2))
qed

theorem confirmSlot_flag_and_advance_witness:
  "\<not> unlocked (run (butlast confirm_path) (new_game 1))
   \<and> wf (run (butlast confirm_path) (new_game 1))
   \<and> correctSlots (snd (confirmSlot (run (butlast confirm_path) (new_game 1)))) ! 2
   \<and> currentSlot (snd (confirmSlot (run (butlast confirm_path) (new_game 1)))) = 2
   \<and> correctSlots (snd (confirmSlot_ts (run (butlast confirm_path) (new_game 1)))) ! 2
   \<and> currentSlot (snd (confirmSlot_ts (run (butlast confirm_path) (new_game 1)))) = 2
   \<and> \<not> unlocked (new_game 1) \<and> wf (new_game 1)
   \<and> \<not> correctSlots (snd (confirmSlot (new_game 1))) ! 0
   \<and> currentSlot (snd (confirmSlot (new_game 1))) = 0
   \<and> \<not> correctSlots (snd (confirmSlot_ts (new_game 1))) ! 0
   \<and> currentSlot (snd (confirmSlot_ts (new_game 1))) = 0
   \<and> \<not> unlocked (run (take 2 confirm_path) (new_game 1))
   \<and> wf (run (take 2 confirm_path) (new_game 1))
   \<and> correctSlots (snd (confirmSlot (run (take 2 confirm_path) (new_game 1)))) ! 0
   \<and> currentSlot (snd (confirmSlot (run (take 2 confirm_path) (new_game 1)))) = 1
   \<and> correctSlots (snd (confirmSlot_ts (run (take 2 confirm_path) (new_game 1)))) ! 0
   \<and> currentSlot (snd (confirmSlot_ts (run (take 2 confirm_path) (new_game 1)))) = 0"
proof -
  let ?a = "run (butlast confirm_path) (new_game 1)"
  let ?b = "new_game 1"
  let ?c = "run (take 2 confirm_path) (new_game 1)"
  have la: "\<not> unlocked ?a" and wa: "wf ?a"
    by (simp_all add: run_confirm_prefix wf_def)
  have lb: "\<not> unlocked ?b" and wb: "wf ?b"
    by (simp_all add: new_game_1 wf_def)
  have lc: "\<not> unlocked ?c" and wc: "wf ?c"
    by (simp_all add: run_take2 wf_def)
  from confirmSlot_flag_and_advance [OF la wa]
  have a': "correctSlots (snd (confirmSlot ?a)) ! 2 \<and> currentSlot (snd (confirmSlot ?a)) = 2
      \<and> correctSlots (snd (confirmSlot_ts ?a)) ! 2 \<and> currentSlot (snd (confirmSlot_ts ?a)) = 2"
    by (simp add: run_confirm_prefix)
  from confirmSlot_flag_and_advance [OF lb wb]
  have b': "\<not> correctSlots (snd (confirmSlot ?b)) ! 0 \<and> currentSlot (snd (confirmSlot ?b)) = 0
      \<and> \<not> correctSlots (snd (confirmSlot_ts ?b)) ! 0 \<and> currentSlot (snd (confirmSlot_ts ?b)) = 0"
    by (simp add: new_game_1)
  from confirmSlot_flag_and_advance [OF lc wc]
  have c': "correctSlots (snd (confirmSlot ?c)) ! 0 \<and> currentSlot (snd (confirmSlot ?c)) = 1
      \<and> correctSlots (snd (confirmSlot_ts ?c)) ! 0 \<and> currentSlot (snd (confirmSlot_ts ?c)) = 0"
    by (simp add: run_take2)
  from la wa lb wb lc wc a' b' c' show ?thesis by simp
qed

section \<open>changeDigit as an action of the integers modulo 10\<close>

lemma changeDigit_ts_fields:
  assumes "\<not> unlocked g"
  shows "currentSlot (snd (changeDigit_ts dir g)) = currentSlot g"
    and "targetCode (snd (changeDigit_ts dir g)) = targetCode g"
    and "\<not> unlocked (snd (changeDigit_ts dir g))"
  using assms by (simp_all add: changeDigit_ts_def Let_def)

lemma wf_changeDigit_ts:
  assumes "wf g" and "dir = 1 \<or> dir = -1"
  shows "wf (snd (changeDigit_ts dir g))"
proof -
  from wf_changeDigit [OF assms]
  have "length (slots (snd (changeDigit dir g))) = 3"
    and "list_all (\<lambda>d. 0 \<le> d \<and> d < 10) (slots (snd (changeDigit dir g)))"
    by (simp_all add: wf_def)
  moreover have "length (targetCode (snd (changeDigit_ts dir g))) = 3
      \<and> length (correctSlots (snd (changeDigit_ts dir g))) = 3
      \<and> currentSlot (snd (changeDigit_ts dir g)) < 3"
    using assms(1) by (simp add: changeDigit_ts_def Let_def wf_def)
  ultimately show ?thesis
    by (simp add: wf_def slots_changeDigit_ts)
qed

text \<open>One step of either variant, as a function on states.\<close>

lemma changeDigit_step:
  assumes "dir = 1 \<or> dir = -1" and "\<not> unlocked h" and "wf h"
  shows "\<not> unlocked (snd (changeDigit dir h)) \<and> wf (snd (changeDigit dir h))
         \<and> currentSlot (snd (changeDigit dir h)) = currentSlot h
         \<and> slots (snd (changeDigit dir h))
             = (slots h)[currentSlot h := (slots h ! currentSlot h + dir) mod 10]"
  using assms by (simp add: changeDigit_fields wf_changeDigit slots_changeDigit)

lemma changeDigit_ts_step:
  assumes "dir = 1 \<or> dir = -1" and "\<not> unlocked h" and "wf h"
  shows "\<not> unlocked (snd (changeDigit_ts dir h)) \<and> wf (snd (changeDigit_ts dir h))
         \<and> currentSlot (snd (changeDigit_ts dir h)) = currentSlot h
         \<and> slots (snd (changeDigit_ts dir h))
             = (slots h)[currentSlot h := (slots h ! currentSlot h + dir) mod 10]"
  using assms
  by (simp add: changeDigit_ts_fields wf_changeDigit_ts slots_changeDigit_ts slots_changeDigit)

text \<open>
  Any state function that steps the current digit by \<open>dir\<close> modulo 10 and keeps the state
  locked and well-formed moves the digit by \<open>dir * k\<close> in \<open>k\<close> steps.
\<close>

lemma digit_action_funpow:
  assumes step: "\<And>h. \<not> unlocked h \<Longrightarrow> wf h \<Longrightarrow>
        \<not> unlocked (f h) \<and> wf (f h) \<and> currentSlot (f h) = currentSlot h
        \<and> slots (f h) = (slots h)[currentSlot h := (slots h ! currentSlot h + dir) mod 10]"
    and "\<not> unlocked g" and "wf g"
  shows "\<not> unlocked ((f ^^ k) g) \<and> wf ((f ^^ k) g)
         \<and> currentSlot ((f ^^ k) g) = currentSlot g
         \<and> slots ((f ^^ k) g)
             = (slots g)[currentSlot g := (slots g ! currentSlot g + dir * int k) mod 10]"
proof (induction k)
  case 0
  from digit_in_range [OF assms(3)]
  have "(slots g ! currentSlot g) mod 10 = slots g ! currentSlot g" by simp
  with assms(2,3) show ?case by simp
next
  case (Suc k)
  let ?h = "(f ^^ k) g"
  from Suc have l: "\<not> unlocked ?h" and w: "wf ?h" and c: "currentSlot ?h = currentSlot g"
    and s: "slots ?h = (slots g)[currentSlot g := (slots g ! currentSlot g + dir * int k) mod 10]"
    by simp_all
  from assms(3) have len: "currentSlot g < length (slots g)" by (simp add: wf_def)
  from step [OF l w]
  have l': "\<not> unlocked (f ?h)" and w': "wf (f ?h)" and c': "currentSlot (f ?h) = currentSlot ?h"
    and s': "slots (f ?h) = (slots ?h)[currentSlot ?h := (slots ?h ! currentSlot ?h + dir) mod 10]"
    by simp_all
  have "slots (f ?h)
      = (slots g)[currentSlot g := ((slots g ! currentSlot g + dir * int k) mod 10 + dir) mod 10]"
    using len by (simp add: s' c s)
  also have "((slots g ! currentSlot g + dir * int k) mod 10 + dir) mod 10
      = (slots g ! currentSlot g + dir * int (Suc k)) mod 10"
    by (simp add: mod_simps algebra_simps)
  finally have "slots (f ?h)
      = (slots g)[currentSlot g := (slots g ! currentSlot g + dir * int (Suc k)) mod 10]" .
  with l' w' c' c show ?case by simp
qed

lemma digit_action_round_trip:
  assumes up: "\<And>h. \<not> unlocked h \<Longrightarrow> wf h \<Longrightarrow>
        \<not> unlocked (u h) \<and> wf (u h) \<and> currentSlot (u h) = currentSlot h
        \<and> slots (u h) = (slots h)[currentSlot h := (slots h ! currentSlot h + 1) mod 10]"
    and down: "\<And>h. \<not> unlocked h \<Longrightarrow> wf h \<Longrightarrow>
        \<not> unlocked (d h) \<and> wf (d h) \<and> currentSlot (d h) = currentSlot h
        \<and> slots (d h) = (slots h)[currentSlot h := (slots h ! currentSlot h + -1) mod 10]"
    and l: "\<not> unlocked g" and w: "wf g"
  shows "slots (d (u g)) = slots g" and "slots (u (d g)) = slots g"
    and "slots ((u ^^ 10) g) = slots g"
proof -
  let ?x = "slots g ! currentSlot g"
  from digit_in_range [OF w] have x: "0 \<le> ?x" "?x < 10" by simp_all
  from w have len: "currentSlot g < length (slots g)" by (simp add: wf_def)
  have undo: "((?x + 1) mod 10 + -1) mod 10 = ?x" "((?x + -1) mod 10 + 1) mod 10 = ?x"
    using x by (simp_all add: mod_simps)
  from up [OF l w] have ug: "\<not> unlocked (u g)" "wf (u g)" "currentSlot (u g) = currentSlot g"
    "slots (u g) = (slots g)[currentSlot g := (?x + 1) mod 10]" by simp_all
  from down [OF l w] have dg: "\<not> unlocked (d g)" "wf (d g)" "currentSlot (d g) = currentSlot g"
    "slots (d g) = (slots g)[currentSlot g := (?x + -1) mod 10]" by simp_all
  from down [OF ug(1,2)] len
  have "slots (d (u g)) = (slots g)[currentSlot g := ((?x + 1) mod 10 + -1) mod 10]"
    by (simp add: ug(3,4))
  then show "slots (d (u g)) = slots g"
    by (simp only: undo list_update_id)
  from up [OF dg(1,2)] len
  have "slots (u (d g)) = (slots g)[currentSlot g := ((?x + -1) mod 10 + 1) mod 10]"
    by (simp add: dg(3,4))
  then show "slots (u (d g)) = slots g"
    by (simp only: undo list_update_id)
  have "(?x + 1 * int 10) mod 10 = ?x" using x by simp
  with digit_action_funpow [of u 1 g 10, OF up l w]
  show "slots ((u ^^ 10) g) = slots g" by simp
qed

text \<open>
  C6. In a locked state \<open>changeDigit\<close> with direction 1 or -1 replaces the digit \<open>d\<close> of the
  current slot by \<open>(d + direction) mod 10\<close> and leaves the other digits and the current
  slot as they are; \<open>k\<close> such steps replace it by \<open>(d + direction * k) mod 10\<close>. So a step
  up followed by a step down, or a step down followed by a step up, restores the digits,
  and so do ten steps up. From the digits 0, 0, 0 with the first slot current, a step down
  gives 9, 0, 0 and the current slot stays the first. All of this holds for the
  \<open>changeDigit\<close> of \<^verbatim>\<open>main.js\<close> and for the one of the TypeScript file.
\<close>

theorem changeDigit_group_action:
  assumes "\<not> unlocked g" and "wf g" and "direction = 1 \<or> direction = -1"
  shows "slots (snd (changeDigit direction g))
           = (slots g)[currentSlot g := (slots g ! currentSlot g + direction) mod 10]
         \<and> currentSlot (snd (changeDigit direction g)) = currentSlot g
         \<and> (\<forall>k. slots (((\<lambda>h. snd (changeDigit direction h)) ^^ k) g)
                = (slots g)[currentSlot g := (slots g ! currentSlot g + direction * int k) mod 10])
         \<and> slots (snd (changeDigit (-1) (snd (changeDigit 1 g)))) = slots g
         \<and> slots (snd (changeDigit 1 (snd (changeDigit (-1) g)))) = slots g
         \<and> slots (((\<lambda>h. snd (changeDigit 1 h)) ^^ 10) g) = slots g
         \<and> (slots g = [0, 0, 0] \<and> currentSlot g = 0 \<longrightarrow>
              slots (snd (changeDigit (-1) g)) = [9, 0, 0]
              \<and> currentSlot (snd (changeDigit (-1) g)) = 0)
         \<and> slots (snd (changeDigit_ts direction g))
           = (slots g)[currentSlot g := (slots g ! currentSlot g + direction) mod 10]
         \<and> currentSlot (snd (changeDigit_ts direction g)) = currentSlot g
         \<and> (\<forall>k. slots (((\<lambda>h. snd (changeDigit_ts direction h)) ^^ k) g)
                = (slots g)[currentSlot g := (slots g ! currentSlot g + direction * int k) mod 10])
         \<and> slots (snd (changeDigit_ts (-1) (snd (changeDigit_ts 1 g)))) = slots g
         \<and> slots (snd (changeDigit_ts 1 (snd (changeDigit_ts (-1) g)))) = slots g
         \<and> slots (((\<lambda>h. snd (changeDigit_ts 1 h)) ^^ 10) g) = slots g
         \<and> (slots g = [0, 0, 0] \<and> currentSlot g = 0 \<longrightarrow>
              slots (snd (changeDigit_ts (-1) g)) = [9, 0, 0]
              \<and> currentSlot (snd (changeDigit_ts (-1) g)) = 0)"
proof -
  note l = assms(1) and w = assms(2) and dir = assms(3)
  have js: "slots (snd (changeDigit direction g))
        = (slots g)[currentSlot g := (slots g ! currentSlot g + direction) mod 10]"
      "currentSlot (snd (changeDigit direction g)) = currentSlot g"
    using changeDigit_step [OF dir l w] by simp_all
  have ts: "slots (snd (changeDigit_ts direction g))
        = (slots g)[currentSlot g := (slots g ! currentSlot g + direction) mod 10]"
      "currentSlot (snd (changeDigit_ts direction g)) = currentSlot g"
    using changeDigit_ts_step [OF dir l w] by simp_all
  have jk: "slots (((\<lambda>h. snd (changeDigit direction h)) ^^ k) g)
        = (slots g)[currentSlot g := (slots g ! currentSlot g + direction * int k) mod 10]" for k
    using digit_action_funpow [of "\<lambda>h. snd (changeDigit direction h)" direction g k,
        OF changeDigit_step [OF dir] l w] by simp
  have tk: "slots (((\<lambda>h. snd (changeDigit_ts direction h)) ^^ k) g)
        = (slots g)[currentSlot g := (slots g ! currentSlot g + direction * int k) mod 10]" for k
    using digit_action_funpow [of "\<lambda>h. snd (changeDigit_ts direction h)" direction g k,
        OF changeDigit_ts_step [OF dir] l w] by simp
  have one: "(1::int) = 1 \<or> (1::int) = -1" and mone: "(-1::int) = 1 \<or> (-1::int) = -1"
    by simp_all
  note jr = digit_action_round_trip [of "\<lambda>h. snd (changeDigit 1 h)" "\<lambda>h. snd (changeDigit (-1) h)" g,
      OF changeDigit_step [OF one] changeDigit_step [OF mone] l w]
  note tr = digit_action_round_trip [of "\<lambda>h. snd (changeDigit_ts 1 h)"
      "\<lambda>h. snd (changeDigit_ts (-1) h)" g,
      OF changeDigit_ts_step [OF one] changeDigit_ts_step [OF mone] l w]
  have jz: "slots g = [0, 0, 0] \<and> currentSlot g = 0 \<longrightarrow>
      slots (snd (changeDigit (-1) g)) = [9, 0, 0] \<and> currentSlot (snd (changeDigit (-1) g)) = 0"
    using changeDigit_step [OF mone l w] by simp
  have tz: "slots g = [0, 0, 0] \<and> currentSlot g = 0 \<longrightarrow>
      slots (snd (changeDigit_ts (-1) g)) = [9, 0, 0]
      \<and> currentSlot (snd (changeDigit_ts (-1) g)) = 0"
    using changeDigit_ts_step [OF mone l w] by simp
  from js ts jk tk jr tr jz tz show ?thesis by blast
qed

theorem changeDigit_group_action_witness:
  "\<not> unlocked (new_game 1) \<and> wf (new_game 1)
   \<and> slots (new_game 1) = [0, 0, 0] \<and> currentSlot (new_game 1) = 0
   \<and> slots (snd (changeDigit (-1) (new_game 1))) = [9, 0, 0]
   \<and> currentSlot (snd (changeDigit (-1) (new_game 1))) = 0
   \<and> slots (snd (changeDigit 1 (new_game 1))) = [1, 0, 0]
   \<and> slots (snd (changeDigit_ts (-1) (new_game 1))) = [9, 0, 0]
   \<and> slots (snd (changeDigit_ts 1 (new_game 1))) = [1, 0, 0]
   \<and> slots (snd (changeDigit (-1) (snd (changeDigit 1 (new_game 1))))) = [0, 0, 0]
   \<and> slots (snd (changeDigit 1 (snd (changeDigit (-1) (new_game 1))))) = [0, 0, 0]
   \<and> slots (((\<lambda>h. snd (changeDigit 1 h)) ^^ 10) (new_game 1)) = [0, 0, 0]
   \<and> slots (((\<lambda>h. snd (changeDigit 1 h)) ^^ 3) (new_game 1)) = [3, 0, 0]
   \<and> slots (((\<lambda>h. snd (changeDigit_ts (-1) h)) ^^ 3) (new_game 1)) = [7, 0, 0]
   \<and> \<not> unlocked (run (take 4 confirm_path) (new_game 1))
   \<and> wf (run (take 4 confirm_path) (new_game 1))
   \<and> slots (run (take 4 confirm_path) (new_game 1)) = [2, 9, 0]
   \<and> currentSlot (run (take 4 confirm_path) (new_game 1)) = 1
   \<and> slots (snd (changeDigit 1 (run (take 4 confirm_path) (new_game 1)))) = [2, 0, 0]
   \<and> slots (snd (changeDigit (-1) (run (take 4 confirm_path) (new_game 1)))) = [2, 8, 0]
   \<and> currentSlot (snd (changeDigit 1 (run (take 4 confirm_path) (new_game 1)))) = 1
   \<and> slots (snd (changeDigit_ts 1 (run (take 4 confirm_path) (new_game 1)))) = [2, 0, 0]
   \<and> slots (snd (changeDigit_ts (-1) (run (take 4 confirm_path) (new_game 1)))) = [2, 8, 0]"
proof -
  let ?a = "new_game 1"
  let ?b = "run (take 4 confirm_path) (new_game 1)"
  have la: "\<not> unlocked ?a" and wa: "wf ?a"
    and sa: "slots ?a = [0, 0, 0]" and ca: "currentSlot ?a = 0"
    by (simp_all add: new_game_1 wf_def)
  have lb: "\<not> unlocked ?b" and wb: "wf ?b"
    and sb: "slots ?b = [2, 9, 0]" and cb: "currentSlot ?b = 1"
    by (simp_all add: run_take4 wf_def)
  have one: "(1::int) = 1 \<or> (1::int) = -1" and mone: "(-1::int) = 1 \<or> (-1::int) = -1"
    by simp_all
  note a1 = changeDigit_group_action [OF la wa one]
  note a2 = changeDigit_group_action [OF la wa mone]
  note b1 = changeDigit_group_action [OF lb wb one]
  note b2 = changeDigit_group_action [OF lb wb mone]
  have up3: "slots (((\<lambda>h. snd (changeDigit 1 h)) ^^ 3) ?a) = [3, 0, 0]"
    using a1 [THEN conjunct2, THEN conjunct2, THEN conjunct1, rule_format, of 3]
    by (simp add: sa ca)
  have down3: "slots (((\<lambda>h. snd (changeDigit_ts (-1) h)) ^^ 3) ?a) = [7, 0, 0]"
  proof -
    from a2 have "\<forall>k. slots (((\<lambda>h. snd (changeDigit_ts (-1) h)) ^^ k) ?a)
        = (slots ?a)[currentSlot ?a := (slots ?a ! currentSlot ?a + -1 * int k) mod 10]"
      by blast
    from this [rule_format, of 3] show ?thesis by (simp add: sa ca)
  qed
  have a: "slots (snd (changeDigit (-1) ?a)) = [9, 0, 0]"
      "currentSlot (snd (changeDigit (-1) ?a)) = 0"
      "slots (snd (changeDigit 1 ?a)) = [1, 0, 0]"
      "slots (snd (changeDigit_ts (-1) ?a)) = [9, 0, 0]"
      "slots (snd (changeDigit_ts 1 ?a)) = [1, 0, 0]"
      "slots (snd (changeDigit (-1) (snd (changeDigit 1 ?a)))) = [0, 0, 0]"
      "slots (snd (changeDigit 1 (snd (changeDigit (-1) ?a)))) = [0, 0, 0]"
      "slots (((\<lambda>h. snd (changeDigit 1 h)) ^^ 10) ?a) = [0, 0, 0]"
    using a1 a2 by (simp_all add: sa ca)
  have b: "slots (snd (changeDigit 1 ?b)) = [2, 0, 0]"
      "slots (snd (changeDigit (-1) ?b)) = [2, 8, 0]"
      "currentSlot (snd (changeDigit 1 ?b)) = 1"
      "slots (snd (changeDigit_ts 1 ?b)) = [2, 0, 0]"
      "slots (snd (changeDigit_ts (-1) ?b)) = [2, 8, 0]"
    using b1 b2 by (simp_all add: sb cb)
  from la wa sa ca lb wb sb cb a b up3 down3 show ?thesis by simp
qed

end
